theory Spec2Isabelle
  imports Main
begin

section \<open>The Sudoku board component (src/components/SudokuGrid.tsx)\<close>

text \<open>
  The component keeps four 9x9 arrays in React state (\<open>grid\<close>, \<open>initialGrid\<close>,
  \<open>errors\<close>, \<open>correctCells\<close>), the digit chosen in the number picker and the last
  clicked cell. Its logic is \<open>isValidMove\<close>, \<open>isSolved\<close> and the click handler
  \<open>handleCellClick\<close>; the parent is reached through the callbacks \<open>onError\<close> and
  \<open>onSolved\<close> and the user through two toasts.

  JavaScript arrays are modelled as lists. An inner array has elements of type
  \<open>'a option\<close>: \<open>None\<close> is a hole or \<open>undefined\<close>, which is what a store beyond the end
  of an array leaves behind. Reading an inner array out of range gives \<open>undefined\<close>;
  indexing \<open>undefined\<close> (an outer index out of range) throws a \<open>TypeError\<close>.
\<close>

subsection \<open>Arrays\<close>

datatype error = TypeError

type_synonym 'a jsgrid = "'a option list list"

definition js_index :: "'a list \<Rightarrow> nat \<Rightarrow> 'a option" where
  "js_index xs i = (if i < length xs then Some (xs ! i) else None)"

text \<open>\<open>g[row][col]\<close> as an expression.\<close>

definition cell_at :: "'a jsgrid \<Rightarrow> nat \<Rightarrow> nat \<Rightarrow> error + 'a option" where
  "cell_at g row col =
     (case js_index g row of
        None \<Rightarrow> Inl TypeError
      | Some r \<Rightarrow> Inr (case js_index r col of None \<Rightarrow> None | Some v \<Rightarrow> v))"

text \<open>\<open>xs[i] = v\<close>: inside the array it overwrites, beyond the end it extends.\<close>

definition js_store :: "'a option list \<Rightarrow> nat \<Rightarrow> 'a \<Rightarrow> 'a option list" where
  "js_store xs i v =
     (if i < length xs then xs[i := Some v]
      else xs @ replicate (i - length xs) None @ [Some v])"

text \<open>\<open>g[row][col] = v\<close> as a statement.\<close>

definition set_cell :: "'a jsgrid \<Rightarrow> nat \<Rightarrow> nat \<Rightarrow> 'a \<Rightarrow> error + 'a jsgrid" where
  "set_cell g row col v =
     (if row < length g then Inr (g[row := js_store (g ! row) col v])
      else Inl TypeError)"

subsection \<open>The static puzzles\<close>

datatype difficulty = Easy | Medium | Hard

definition easy :: "int list list" where
  "easy =
    [[5, 3, 0, 0, 7, 0, 0, 0, 0],
     [6, 0, 0, 1, 9, 5, 0, 0, 0],
     [0, 9, 8, 0, 0, 0, 0, 6, 0],
     [8, 0, 0, 0, 6, 0, 0, 0, 3],
     [4, 0, 0, 8, 0, 3, 0, 0, 1],
     [7, 0, 0, 0, 2, 0, 0, 0, 6],
     [0, 6, 0, 0, 0, 0, 2, 8, 0],
     [0, 0, 0, 4, 1, 9, 0, 0, 5],
     [0, 0, 0, 0, 8, 0, 0, 7, 9]]"

definition medium :: "int list list" where
  "medium =
    [[0, 2, 0, 6, 0, 8, 0, 0, 0],
     [5, 8, 0, 0, 0, 9, 7, 0, 0],
     [0, 0, 0, 0, 4, 0, 0, 0, 0],
     [3, 7, 0, 0, 0, 0, 5, 0, 0],
     [6, 0, 0, 0, 0, 0, 0, 0, 4],
     [0, 0, 8, 0, 0, 0, 0, 1, 3],
     [0, 0, 0, 0, 2, 0, 0, 0, 0],
     [0, 0, 9, 8, 0, 0, 0, 3, 6],
     [0, 0, 0, 3, 0, 6, 0, 9, 0]]"

definition hard :: "int list list" where
  "hard =
    [[0, 0, 0, 6, 0, 0, 4, 0, 0],
     [7, 0, 0, 0, 0, 3, 6, 0, 0],
     [0, 0, 0, 0, 9, 1, 0, 8, 0],
     [0, 0, 0, 0, 0, 0, 0, 0, 0],
     [0, 5, 0, 1, 8, 0, 0, 0, 3],
     [0, 0, 0, 3, 0, 6, 0, 4, 5],
     [0, 4, 0, 2, 0, 0, 0, 6, 0],
     [9, 0, 3, 0, 0, 0, 0, 0, 0],
     [0, 2, 0, 0, 0, 0, 1, 0, 0]]"

fun sudokuPuzzles :: "difficulty \<Rightarrow> int list list" where
  "sudokuPuzzles Easy = easy"
| "sudokuPuzzles Medium = medium"
| "sudokuPuzzles Hard = hard"

subsection \<open>Component state\<close>

record board =
  grid :: "int jsgrid"
  initialGrid :: "int jsgrid"
  errors :: "bool jsgrid"
  correctCells :: "bool jsgrid"
  selectedNumber :: int
  selectedCell :: "(nat \<times> nat) option"
  highlightedNumber :: "int option"

text \<open>The values given to \<open>useState\<close>, before the first effect has run.\<close>

definition mounted :: board where
  "mounted =
     \<lparr>grid = [], initialGrid = [], errors = [], correctCells = [],
      selectedNumber = 1, selectedCell = None, highlightedNumber = None\<rparr>"

text \<open>
  The effect on \<open>difficulty\<close>: both grids are row-wise copies of the puzzle, both flag
  arrays are all \<open>false\<close>. The picker's digit and the selection are not reset.
\<close>

definition load :: "difficulty \<Rightarrow> board \<Rightarrow> board" where
  "load d s =
     (let puzzle = sudokuPuzzles d in
      s\<lparr>grid := map (map Some) puzzle,
        initialGrid := map (map Some) puzzle,
        errors := replicate 9 (replicate 9 (Some False)),
        correctCells := replicate 9 (replicate 9 (Some False))\<rparr>)"

definition start :: "difficulty \<Rightarrow> board" where
  "start d = load d mounted"

definition handleNumberSelect :: "board \<Rightarrow> int \<Rightarrow> board" where
  "handleNumberSelect s number =
     s\<lparr>selectedNumber := number, highlightedNumber := Some number\<rparr>"

subsection \<open>isValidMove\<close>

text \<open>
  Each loop is a recursion over the indices it visits, in the order it visits them.
  \<open>Inr True\<close> means that the loop ran to its end, \<open>Inr False\<close> that it hit
  \<open>return false\<close>, \<open>Inl e\<close> that a read threw. The guard \<open>x !== col && ...\<close>
  short-circuits, so the skipped cell is not read.
\<close>

fun check_row :: "int jsgrid \<Rightarrow> nat \<Rightarrow> nat \<Rightarrow> int \<Rightarrow> nat list \<Rightarrow> error + bool" where
  "check_row g row col num [] = Inr True"
| "check_row g row col num (x # xs) =
     (if x \<noteq> col then
        (case cell_at g row x of
           Inl e \<Rightarrow> Inl e
         | Inr v \<Rightarrow> if v = Some num then Inr False else check_row g row col num xs)
      else check_row g row col num xs)"

fun check_col :: "int jsgrid \<Rightarrow> nat \<Rightarrow> nat \<Rightarrow> int \<Rightarrow> nat list \<Rightarrow> error + bool" where
  "check_col g row col num [] = Inr True"
| "check_col g row col num (x # xs) =
     (if x \<noteq> row then
        (case cell_at g x col of
           Inl e \<Rightarrow> Inl e
         | Inr v \<Rightarrow> if v = Some num then Inr False else check_col g row col num xs)
      else check_col g row col num xs)"

fun check_box :: "int jsgrid \<Rightarrow> nat \<Rightarrow> nat \<Rightarrow> int \<Rightarrow> (nat \<times> nat) list \<Rightarrow> error + bool" where
  "check_box g row col num [] = Inr True"
| "check_box g row col num ((i, j) # ijs) =
     (let startRow = row - (row mod 3);
          startCol = col - (col mod 3);
          currentRow = startRow + i;
          currentCol = startCol + j
      in if currentRow \<noteq> row \<or> currentCol \<noteq> col then
           (case cell_at g currentRow currentCol of
              Inl e \<Rightarrow> Inl e
            | Inr v \<Rightarrow> if v = Some num then Inr False else check_box g row col num ijs)
         else check_box g row col num ijs)"

definition isValidMove :: "int jsgrid \<Rightarrow> nat \<Rightarrow> nat \<Rightarrow> int \<Rightarrow> error + bool" where
  "isValidMove g row col num =
     (case check_row g row col num [0..<9] of
        Inl e \<Rightarrow> Inl e
      | Inr False \<Rightarrow> Inr False
      | Inr True \<Rightarrow>
          (case check_col g row col num [0..<9] of
             Inl e \<Rightarrow> Inl e
           | Inr False \<Rightarrow> Inr False
           | Inr True \<Rightarrow> check_box g row col num (List.product [0..<3] [0..<3])))"

subsection \<open>isSolved\<close>

fun isSolved_loop :: "int jsgrid \<Rightarrow> (nat \<times> nat) list \<Rightarrow> error + bool" where
  "isSolved_loop g [] = Inr True"
| "isSolved_loop g ((row, col) # rcs) =
     (case cell_at g row col of
        Inl e \<Rightarrow> Inl e
      | Inr v \<Rightarrow> if v = Some 0 then Inr False else isSolved_loop g rcs)"

definition isSolved :: "int jsgrid \<Rightarrow> error + bool" where
  "isSolved g = isSolved_loop g (List.product [0..<9] [0..<9])"

text \<open>\<open>a.some((row) => row.some((cell) => cell))\<close>: a hole is not truthy.\<close>

definition some_error :: "bool jsgrid \<Rightarrow> bool" where
  "some_error e = list_ex (\<lambda>row. list_ex (\<lambda>cell. cell = Some True) row) e"

subsection \<open>handleCellClick\<close>

text \<open>
  What reaches the outside of the component during one call, in order: the two
  callbacks and the two toasts (the toast carries the digit it names).
\<close>

datatype signal = OnError | ToastError int | ToastSuccess int | OnSolved

text \<open>
  A call ends by returning or by throwing. Either way the state updates it has
  requested so far stand, and the signals it has sent so far are out.
\<close>

datatype outcome = Done board "signal list" | Threw error board "signal list"

fun final_state :: "outcome \<Rightarrow> board" where
  "final_state (Done s sigs) = s"
| "final_state (Threw e s sigs) = s"

fun emitted :: "outcome \<Rightarrow> signal list" where
  "emitted (Done s sigs) = sigs"
| "emitted (Threw e s sigs) = sigs"

text \<open>
  The tail of the handler, from \<open>setGrid(newGrid)\<close> on: the three arrays are
  committed, then the solved check may call \<open>onSolved\<close>.
\<close>

definition commit :: "board \<Rightarrow> int jsgrid \<Rightarrow> bool jsgrid \<Rightarrow> bool jsgrid \<Rightarrow> signal list \<Rightarrow> outcome" where
  "commit s newGrid newErrors newCorrectCells sigs =
     (let s' = s\<lparr>grid := newGrid, errors := newErrors, correctCells := newCorrectCells\<rparr> in
      case isSolved newGrid of
        Inl e \<Rightarrow> Threw e s' sigs
      | Inr solved \<Rightarrow>
          if solved \<and> \<not> some_error newErrors then Done s' (sigs @ [OnSolved])
          else Done s' sigs)"

text \<open>The two branches of the validation, from the flag stores to the toast.\<close>

definition mark :: "board \<Rightarrow> int jsgrid \<Rightarrow> nat \<Rightarrow> nat \<Rightarrow> bool \<Rightarrow> outcome" where
  "mark s newGrid row col invalid =
     (case set_cell (errors s) row col invalid of
        Inl e \<Rightarrow> Threw e s []
      | Inr newErrors \<Rightarrow>
          (case set_cell (correctCells s) row col (\<not> invalid) of
             Inl e \<Rightarrow> Threw e s []
           | Inr newCorrectCells \<Rightarrow>
               commit s newGrid newErrors newCorrectCells
                 (if invalid then [OnError, ToastError (selectedNumber s)]
                  else [ToastSuccess (selectedNumber s)])))"

definition handleCellClick :: "bool \<Rightarrow> board \<Rightarrow> nat \<Rightarrow> nat \<Rightarrow> outcome" where
  "handleCellClick gameOver s row col =
     (case cell_at (initialGrid s) row col of
        Inl e \<Rightarrow> Threw e s []
      | Inr v \<Rightarrow>
          if v \<noteq> Some 0 \<or> gameOver then Done s []
          else
            (let s1 = s\<lparr>selectedCell := Some (row, col)\<rparr> in
             case set_cell (grid s) row col (selectedNumber s) of
               Inl e \<Rightarrow> Threw e s1 []
             | Inr newGrid \<Rightarrow>
                 if selectedNumber s \<noteq> 0 then
                   (case isValidMove newGrid row col (selectedNumber s) of
                      Inl e \<Rightarrow> Threw e s1 []
                    | Inr valid \<Rightarrow> mark s1 newGrid row col (\<not> valid))
                 else mark s1 newGrid row col False))"

subsection \<open>A session\<close>

text \<open>
  What happens to a mounted component between two loads: a cell is clicked, a digit
  is picked, or the parent renders it again with another \<open>gameOver\<close>. The session is
  the \<open>gameOver\<close> prop together with the component state; a handler that throws
  leaves the state it had reached.
\<close>

datatype event = Click nat nat | Select int | GameOverProp bool

type_synonym session = "bool \<times> board"

fun step :: "session \<Rightarrow> event \<Rightarrow> session \<times> signal list" where
  "step (gameOver, s) (Click row col) =
     (let out = handleCellClick gameOver s row col
      in ((gameOver, final_state out), emitted out))"
| "step (gameOver, s) (Select number) = ((gameOver, handleNumberSelect s number), [])"
| "step (gameOver, s) (GameOverProp b) = ((b, s), [])"

fun run :: "session \<Rightarrow> event list \<Rightarrow> session" where
  "run ss [] = ss"
| "run ss (e # es) = run (fst (step ss e)) es"

text \<open>The signals of each event of a run, in order.\<close>

fun trace :: "session \<Rightarrow> event list \<Rightarrow> signal list list" where
  "trace ss [] = []"
| "trace ss (e # es) = snd (step ss e) # trace (fst (step ss e)) es"

subsection \<open>The scans of isValidMove, one at a time\<close>

text \<open>
  The three loops of \<open>isValidMove\<close> as separate scans, and the function that runs a
  list of them with the \<open>return false\<close> of each; \<open>isValidMove\<close> is the list
  row, column, box (lemma \<open>isValidMove_scans\<close>).
\<close>

datatype scan = RowScan | ColScan | BoxScan

fun run_scan :: "scan \<Rightarrow> int jsgrid \<Rightarrow> nat \<Rightarrow> nat \<Rightarrow> int \<Rightarrow> error + bool" where
  "run_scan RowScan g row col num = check_row g row col num [0..<9]"
| "run_scan ColScan g row col num = check_col g row col num [0..<9]"
| "run_scan BoxScan g row col num = check_box g row col num (List.product [0..<3] [0..<3])"

fun scans_in_order :: "scan list \<Rightarrow> int jsgrid \<Rightarrow> nat \<Rightarrow> nat \<Rightarrow> int \<Rightarrow> error + bool" where
  "scans_in_order [] g row col num = Inr True"
| "scans_in_order (k # ks) g row col num =
     (case run_scan k g row col num of
        Inl e \<Rightarrow> Inl e
      | Inr False \<Rightarrow> Inr False
      | Inr True \<Rightarrow> scans_in_order ks g row col num)"

subsection \<open>Well-formed boards\<close>

text \<open>
  Every array the component holds after a load is 9x9, and the handlers keep it so
  (lemmas \<open>wf_board_start\<close> and \<open>step_keeps\<close>).
\<close>

definition shape9 :: "'a list list \<Rightarrow> bool" where
  "shape9 g \<longleftrightarrow> length g = 9 \<and> list_all (\<lambda>r. length r = 9) g"

definition wf_board :: "board \<Rightarrow> bool" where
  "wf_board s \<longleftrightarrow>
     shape9 (grid s) \<and> shape9 (initialGrid s) \<and> shape9 (errors s) \<and> shape9 (correctCells s)"

subsection \<open>Solutions of the puzzles\<close>

text \<open>
  The rule of the game, for a completed grid: 9x9 digits from 1 to 9 that keep the
  puzzle's given cells and repeat no digit in a row, a column or a box.
\<close>

definition correct_solution :: "int list list \<Rightarrow> int list list \<Rightarrow> bool" where
  "correct_solution p sol \<longleftrightarrow>
     shape9 sol \<and>
     list_all (list_all (\<lambda>v. 1 \<le> v \<and> v \<le> 9)) sol \<and>
     list_all (\<lambda>(r, c). p ! r ! c \<noteq> 0 \<longrightarrow> sol ! r ! c = p ! r ! c)
       (List.product [0..<9] [0..<9]) \<and>
     list_all (\<lambda>r. distinct (sol ! r)) [0..<9] \<and>
     list_all (\<lambda>c. distinct (map (\<lambda>r. sol ! r ! c) [0..<9])) [0..<9] \<and>
     list_all (\<lambda>(br, bc).
         distinct (map (\<lambda>(i, j). sol ! (3 * br + i) ! (3 * bc + j))
                     (List.product [0..<3] [0..<3])))
       (List.product [0..<3] [0..<3])"

definition easy_solution :: "int list list" where
  "easy_solution =
    [[5, 3, 4, 6, 7, 8, 9, 1, 2],
     [6, 7, 2, 1, 9, 5, 3, 4, 8],
     [1, 9, 8, 3, 4, 2, 5, 6, 7],
     [8, 5, 9, 7, 6, 1, 4, 2, 3],
     [4, 2, 6, 8, 5, 3, 7, 9, 1],
     [7, 1, 3, 9, 2, 4, 8, 5, 6],
     [9, 6, 1, 5, 3, 7, 2, 8, 4],
     [2, 8, 7, 4, 1, 9, 6, 3, 5],
     [3, 4, 5, 2, 8, 6, 1, 7, 9]]"

definition medium_solution :: "int list list" where
  "medium_solution =
    [[1, 2, 3, 6, 7, 8, 9, 4, 5],
     [5, 8, 4, 2, 3, 9, 7, 6, 1],
     [9, 6, 7, 1, 4, 5, 3, 2, 8],
     [3, 7, 2, 4, 6, 1, 5, 8, 9],
     [6, 9, 1, 5, 8, 3, 2, 7, 4],
     [4, 5, 8, 7, 9, 2, 6, 1, 3],
     [8, 3, 6, 9, 2, 4, 1, 5, 7],
     [2, 1, 9, 8, 5, 7, 4, 3, 6],
     [7, 4, 5, 3, 1, 6, 8, 9, 2]]"

definition hard_solution :: "int list list" where
  "hard_solution =
    [[5, 8, 1, 6, 7, 2, 4, 3, 9],
     [7, 9, 2, 8, 4, 3, 6, 5, 1],
     [3, 6, 4, 5, 9, 1, 7, 8, 2],
     [4, 3, 8, 9, 5, 7, 2, 1, 6],
     [2, 5, 6, 1, 8, 4, 9, 7, 3],
     [1, 7, 9, 3, 2, 6, 8, 4, 5],
     [8, 4, 5, 2, 1, 9, 3, 6, 7],
     [9, 1, 3, 7, 6, 8, 5, 2, 4],
     [6, 2, 7, 4, 3, 5, 1, 9, 8]]"

fun solution :: "difficulty \<Rightarrow> int list list" where
  "solution Easy = easy_solution"
| "solution Medium = medium_solution"
| "solution Hard = hard_solution"

text \<open>The empty cells of a puzzle, row by row.\<close>

definition empty_cells :: "int list list \<Rightarrow> (nat \<times> nat) list" where
  "empty_cells p = filter (\<lambda>(r, c). p ! r ! c = 0) (List.product [0..<9] [0..<9])"

text \<open>
  Filling cells from a completed grid: for each cell of the list, in order, the
  digit is picked and the cell is clicked.
\<close>

definition fill :: "int list list \<Rightarrow> (nat \<times> nat) list \<Rightarrow> event list" where
  "fill sol order = concat (map (\<lambda>(r, c). [Select (sol ! r ! c), Click r c]) order)"

text \<open>The easy puzzle, filled row by row with its solution.\<close>

definition easy_solved :: session where
  "easy_solved = run (False, start Easy) (fill easy_solution (empty_cells easy))"

text \<open>The same fill, stopped before its last click: the digit is picked, the cell is not yet clicked.\<close>

definition easy_before_last :: session where
  "easy_before_last =
     run (False, start Easy) (butlast (fill easy_solution (empty_cells easy)))"

section \<open>Reading and writing 9x9 arrays\<close>

lemma shape9_iff: "shape9 g \<longleftrightarrow> length g = 9 \<and> (\<forall>r<9. length (g ! r) = 9)"
  unfolding shape9_def list_all_iff by (metis in_set_conv_nth nth_mem)

lemma cell_at_shape9:
  "shape9 g \<Longrightarrow> row < 9 \<Longrightarrow> col < 9 \<Longrightarrow> cell_at g row col = Inr (g ! row ! col)"
  by (simp add: cell_at_def js_index_def shape9_iff)

lemma cell_at_row_out: "shape9 g \<Longrightarrow> \<not> row < 9 \<Longrightarrow> cell_at g row col = Inl TypeError"
  by (simp add: cell_at_def js_index_def shape9_iff)

lemma cell_at_col_out:
  "shape9 g \<Longrightarrow> row < 9 \<Longrightarrow> \<not> col < 9 \<Longrightarrow> cell_at g row col = Inr None"
  by (simp add: cell_at_def js_index_def shape9_iff)

lemma set_cell_shape9:
  "shape9 g \<Longrightarrow> row < 9 \<Longrightarrow> col < 9 \<Longrightarrow>
   set_cell g row col v = Inr (g[row := (g ! row)[col := Some v]])"
  by (simp add: set_cell_def js_store_def shape9_iff)

lemma shape9_update:
  "shape9 g \<Longrightarrow> shape9 (g[row := (g ! row)[col := w]])"
  unfolding shape9_iff by (cases "row < 9") (auto simp: nth_list_update)

lemma nth_update2:
  "shape9 g \<Longrightarrow> row < 9 \<Longrightarrow> col < 9 \<Longrightarrow> r < 9 \<Longrightarrow> c < 9 \<Longrightarrow>
   g[row := (g ! row)[col := w]] ! r ! c = (if r = row \<and> c = col then w else g ! r ! c)"
  by (auto simp: shape9_iff nth_list_update)

lemma shape9_puzzles: "shape9 (sudokuPuzzles d)"
  by (cases d) (simp_all add: shape9_def easy_def medium_def hard_def)

lemma shape9_map: "shape9 g \<Longrightarrow> shape9 (map (map f) g)"
  by (simp add: shape9_def list_all_iff)

lemma shape9_replicate: "shape9 (replicate 9 (replicate 9 x))"
  by (simp add: shape9_def list_all_iff)

lemma easy_shape: "shape9 (map (map Some) easy)"
  by (simp add: shape9_def easy_def)

section \<open>Loaded boards\<close>

lemma wf_board_start: "wf_board (start d)"
  by (simp add: wf_board_def start_def load_def Let_def shape9_puzzles shape9_map
      shape9_replicate)

lemma wf_board_select: "wf_board s \<Longrightarrow> wf_board (handleNumberSelect s n)"
  by (simp add: wf_board_def handleNumberSelect_def)

lemma start_cells:
  assumes "r < 9" "c < 9"
  shows "grid (start d) ! r ! c = Some (sudokuPuzzles d ! r ! c)"
    and "initialGrid (start d) ! r ! c = Some (sudokuPuzzles d ! r ! c)"
    and "errors (start d) ! r ! c = Some False"
  using assms shape9_puzzles [of d]
  by (simp_all add: start_def load_def Let_def shape9_iff)

lemma wf_easy_4: "wf_board (handleNumberSelect (start Easy) 4)"
  by (rule wf_board_select [OF wf_board_start])

lemma editable_easy_0_2: "initialGrid (handleNumberSelect (start Easy) 4) ! 0 ! 2 = Some 0"
  by (simp add: handleNumberSelect_def start_def load_def Let_def easy_def)

lemma wf_easy_5: "wf_board (handleNumberSelect (start Easy) 5)"
  by (rule wf_board_select [OF wf_board_start])

lemma editable_easy_5: "initialGrid (handleNumberSelect (start Easy) 5) ! 0 ! 2 = Some 0"
  by (simp add: handleNumberSelect_def start_def load_def Let_def easy_def)

section \<open>The scans on a 9x9 grid\<close>

lemma check_row_shape9:
  "shape9 g \<Longrightarrow> row < 9 \<Longrightarrow> \<forall>x \<in> set xs. x < 9 \<Longrightarrow>
   check_row g row col num xs = Inr (\<forall>x \<in> set xs. x \<noteq> col \<longrightarrow> g ! row ! x \<noteq> Some num)"
  by (induction xs) (auto simp: cell_at_shape9)

lemma check_col_shape9:
  "shape9 g \<Longrightarrow> col < 9 \<Longrightarrow> \<forall>x \<in> set xs. x < 9 \<Longrightarrow>
   check_col g row col num xs = Inr (\<forall>x \<in> set xs. x \<noteq> row \<longrightarrow> g ! x ! col \<noteq> Some num)"
  by (induction xs) (auto simp: cell_at_shape9)

lemma box_bound: "(n::nat) < 9 \<Longrightarrow> i < 3 \<Longrightarrow> n - n mod 3 + i < 9"
  by presburger

lemma check_box_shape9:
  "shape9 g \<Longrightarrow> row < 9 \<Longrightarrow> col < 9 \<Longrightarrow> \<forall>(i, j) \<in> set ijs. i < 3 \<and> j < 3 \<Longrightarrow>
   check_box g row col num ijs =
     Inr (\<forall>(i, j) \<in> set ijs.
            row - row mod 3 + i \<noteq> row \<or> col - col mod 3 + j \<noteq> col \<longrightarrow>
            g ! (row - row mod 3 + i) ! (col - col mod 3 + j) \<noteq> Some num)"
proof (induction ijs)
  case Nil
  then show ?case by simp
next
  case (Cons ij ijs)
  obtain i j where ij: "ij = (i, j)" by (cases ij)
  with Cons.prems have b: "i < 3" "j < 3" by auto
  have c: "cell_at g (row - row mod 3 + i) (col - col mod 3 + j) =
           Inr (g ! (row - row mod 3 + i) ! (col - col mod 3 + j))"
    using Cons.prems(1) box_bound [OF Cons.prems(2) b(1)] box_bound [OF Cons.prems(3) b(2)]
    by (rule cell_at_shape9)
  have ih: "check_box g row col num ijs =
     Inr (\<forall>(i, j) \<in> set ijs.
            row - row mod 3 + i \<noteq> row \<or> col - col mod 3 + j \<noteq> col \<longrightarrow>
            g ! (row - row mod 3 + i) ! (col - col mod 3 + j) \<noteq> Some num)"
    using Cons by simp
  show ?case
    unfolding ij check_box.simps Let_def c ih by auto
qed

lemma run_scan_shape9:
  assumes "shape9 g" "row < 9" "col < 9"
  shows "run_scan RowScan g row col num =
           Inr (\<forall>x<9. x \<noteq> col \<longrightarrow> g ! row ! x \<noteq> Some num)"
    and "run_scan ColScan g row col num =
           Inr (\<forall>x<9. x \<noteq> row \<longrightarrow> g ! x ! col \<noteq> Some num)"
    and "run_scan BoxScan g row col num =
           Inr (\<forall>i<3. \<forall>j<3.
             row - row mod 3 + i \<noteq> row \<or> col - col mod 3 + j \<noteq> col \<longrightarrow>
             g ! (row - row mod 3 + i) ! (col - col mod 3 + j) \<noteq> Some num)"
proof -
  show "run_scan RowScan g row col num =
           Inr (\<forall>x<9. x \<noteq> col \<longrightarrow> g ! row ! x \<noteq> Some num)"
    using assms unfolding run_scan.simps by (subst check_row_shape9) auto
  show "run_scan ColScan g row col num =
           Inr (\<forall>x<9. x \<noteq> row \<longrightarrow> g ! x ! col \<noteq> Some num)"
    using assms unfolding run_scan.simps by (subst check_col_shape9) auto
  show "run_scan BoxScan g row col num =
           Inr (\<forall>i<3. \<forall>j<3.
             row - row mod 3 + i \<noteq> row \<or> col - col mod 3 + j \<noteq> col \<longrightarrow>
             g ! (row - row mod 3 + i) ! (col - col mod 3 + j) \<noteq> Some num)"
    using assms unfolding run_scan.simps by (subst check_box_shape9) auto
qed

lemma isValidMove_scans:
  "isValidMove g row col num = scans_in_order [RowScan, ColScan, BoxScan] g row col num"
  by (simp add: isValidMove_def split: sum.splits bool.splits)

lemma isValidMove_shape9:
  assumes "shape9 g" "row < 9" "col < 9"
  shows "isValidMove g row col num =
     Inr ((\<forall>x<9. x \<noteq> col \<longrightarrow> g ! row ! x \<noteq> Some num) \<and>
          (\<forall>x<9. x \<noteq> row \<longrightarrow> g ! x ! col \<noteq> Some num) \<and>
          (\<forall>i<3. \<forall>j<3.
             row - row mod 3 + i \<noteq> row \<or> col - col mod 3 + j \<noteq> col \<longrightarrow>
             g ! (row - row mod 3 + i) ! (col - col mod 3 + j) \<noteq> Some num))"
  unfolding isValidMove_scans scans_in_order.simps run_scan_shape9 [OF assms]
  by (auto split: bool.splits)

lemma isValidMove_total:
  assumes "shape9 g" "row < 9" "col < 9"
  shows "\<exists>b. isValidMove g row col num = Inr b"
  unfolding isValidMove_shape9 [OF assms] by blast

lemma run_scan_total:
  assumes "shape9 g" "row < 9" "col < 9"
  shows "\<exists>b. run_scan k g row col num = Inr b"
  by (cases k) (simp_all only: run_scan_shape9 [OF assms] sum.inject simp_thms)

lemma scans_in_order_shape9:
  assumes "shape9 g" "row < 9" "col < 9"
  shows "scans_in_order ks g row col num =
           Inr (\<forall>k \<in> set ks. run_scan k g row col num = Inr True)"
proof (induction ks)
  case Nil
  show ?case by simp
next
  case (Cons k ks)
  obtain b where b: "run_scan k g row col num = Inr b"
    using run_scan_total [OF assms] by blast
  show ?case
    unfolding scans_in_order.simps b Cons.IH by (cases b) (simp_all add: b)
qed

lemma isSolved_loop_shape9:
  "shape9 g \<Longrightarrow> \<forall>(r, c) \<in> set rcs. r < 9 \<and> c < 9 \<Longrightarrow>
   isSolved_loop g rcs = Inr (\<forall>(r, c) \<in> set rcs. g ! r ! c \<noteq> Some 0)"
  by (induction rcs) (auto simp: cell_at_shape9)

lemma isSolved_shape9:
  "shape9 g \<Longrightarrow> isSolved g = Inr (\<forall>r<9. \<forall>c<9. g ! r ! c \<noteq> Some 0)"
  unfolding isSolved_def by (subst isSolved_loop_shape9) auto

lemma some_error_shape9:
  "shape9 e \<Longrightarrow> some_error e \<longleftrightarrow> (\<exists>r<9. \<exists>c<9. e ! r ! c = Some True)"
  unfolding some_error_def list_ex_iff shape9_iff
  by (metis in_set_conv_nth)

lemma set_cell_True_some_error:
  assumes "set_cell e row col True = Inr e'"
  shows "some_error e'"
proof -
  from assms have r: "row < length e" and e': "e' = e[row := js_store (e ! row) col True]"
    by (auto simp: set_cell_def split: if_splits)
  have "Some True \<in> set (js_store (e ! row) col True)"
    by (auto simp: js_store_def set_update_memI)
  moreover have "js_store (e ! row) col True \<in> set e'"
    unfolding e' using r by (rule set_update_memI)
  ultimately show ?thesis
    unfolding some_error_def list_ex_iff by blast
qed

section \<open>The click handler on a well-formed board\<close>

lemma commit_shape9:
  "shape9 G \<Longrightarrow> shape9 E \<Longrightarrow>
   commit s G E C sigs =
     Done (s\<lparr>grid := G, errors := E, correctCells := C\<rparr>)
       (sigs @ (if (\<forall>r<9. \<forall>c<9. G ! r ! c \<noteq> Some 0) \<and> (\<forall>r<9. \<forall>c<9. E ! r ! c \<noteq> Some True)
                then [OnSolved] else []))"
  by (simp add: commit_def Let_def isSolved_shape9 some_error_shape9)

lemma mark_shape9:
  assumes "shape9 G" "shape9 (errors s)" "shape9 (correctCells s)" "row < 9" "col < 9"
  shows "mark s G row col invalid =
     Done (s\<lparr>grid := G,
              errors := (errors s)[row := (errors s ! row)[col := Some invalid]],
              correctCells := (correctCells s)[row := (correctCells s ! row)[col := Some (\<not> invalid)]]\<rparr>)
       ((if invalid then [OnError, ToastError (selectedNumber s)]
         else [ToastSuccess (selectedNumber s)]) @
        (if (\<forall>r<9. \<forall>c<9. G ! r ! c \<noteq> Some 0) \<and>
            (\<forall>r<9. \<forall>c<9. (errors s)[row := (errors s ! row)[col := Some invalid]] ! r ! c \<noteq> Some True)
         then [OnSolved] else []))"
  using assms
  by (simp add: mark_def set_cell_shape9 commit_shape9 shape9_update)

lemma handleCellClick_editable:
  assumes wf: "wf_board s" and rc: "row < 9" "col < 9"
    and ed: "initialGrid s ! row ! col = Some 0"
    and G: "G = (grid s)[row := (grid s ! row)[col := Some (selectedNumber s)]]"
    and E: "E = (errors s)[row := (errors s ! row)[col := Some (\<not> valid)]]"
    and v: "valid \<longleftrightarrow> selectedNumber s = 0 \<or> isValidMove G row col (selectedNumber s) = Inr True"
  shows "handleCellClick False s row col =
     Done (s\<lparr>selectedCell := Some (row, col), grid := G, errors := E,
              correctCells := (correctCells s)[row := (correctCells s ! row)[col := Some valid]]\<rparr>)
       ((if valid then [ToastSuccess (selectedNumber s)]
         else [OnError, ToastError (selectedNumber s)]) @
        (if (\<forall>r<9. \<forall>c<9. G ! r ! c \<noteq> Some 0) \<and> (\<forall>r<9. \<forall>c<9. E ! r ! c \<noteq> Some True)
         then [OnSolved] else []))"
proof -
  let ?s1 = "s\<lparr>selectedCell := Some (row, col)\<rparr>"
  from wf have sh: "shape9 (grid s)" "shape9 (initialGrid s)" "shape9 (errors s)"
    "shape9 (correctCells s)"
    by (simp_all add: wf_board_def)
  have shG: "shape9 G" unfolding G using sh(1) by (rule shape9_update)
  have guard: "cell_at (initialGrid s) row col = Inr (Some 0)"
    using sh(2) rc ed by (simp add: cell_at_shape9)
  have store: "set_cell (grid s) row col (selectedNumber s) = Inr G"
    unfolding G using sh(1) rc by (rule set_cell_shape9)
  have m: "mark ?s1 G row col (\<not> valid) =
     Done (s\<lparr>selectedCell := Some (row, col), grid := G, errors := E,
              correctCells := (correctCells s)[row := (correctCells s ! row)[col := Some valid]]\<rparr>)
       ((if valid then [ToastSuccess (selectedNumber s)]
         else [OnError, ToastError (selectedNumber s)]) @
        (if (\<forall>r<9. \<forall>c<9. G ! r ! c \<noteq> Some 0) \<and> (\<forall>r<9. \<forall>c<9. E ! r ! c \<noteq> Some True)
         then [OnSolved] else []))"
    using shG sh(3,4) rc by (subst mark_shape9) (simp_all add: E)
  have h: "handleCellClick False s row col =
     (if selectedNumber s \<noteq> 0 then
        (case isValidMove G row col (selectedNumber s) of
           Inl e \<Rightarrow> Threw e ?s1 []
         | Inr valid \<Rightarrow> mark ?s1 G row col (\<not> valid))
      else mark ?s1 G row col False)"
    unfolding handleCellClick_def guard Let_def store by simp
  show ?thesis
  proof (cases "selectedNumber s = 0")
    case True
    then have "valid" using v by simp
    with True m show ?thesis
      unfolding h by simp
  next
    case False
    obtain b where b: "isValidMove G row col (selectedNumber s) = Inr b"
      using isValidMove_total [OF shG rc] by blast
    with v False have "valid = b" by auto
    with False m show ?thesis
      unfolding h b by simp
  qed
qed

lemma handleCellClick_locked:
  assumes "shape9 (initialGrid s)" "row < 9" "col < 9" "initialGrid s ! row ! col \<noteq> Some 0"
  shows "handleCellClick gameOver s row col = Done s []"
  using assms by (simp add: handleCellClick_def cell_at_shape9)

lemma handleCellClick_keeps:
  assumes wf: "wf_board s"
  shows "wf_board (final_state (handleCellClick gameOver s row col)) \<and>
         initialGrid (final_state (handleCellClick gameOver s row col)) = initialGrid s \<and>
         (\<forall>r<9. \<forall>c<9. initialGrid s ! r ! c \<noteq> Some 0 \<longrightarrow>
            grid (final_state (handleCellClick gameOver s row col)) ! r ! c = grid s ! r ! c)"
proof -
  from wf have sh: "shape9 (grid s)" "shape9 (initialGrid s)" "shape9 (errors s)"
    "shape9 (correctCells s)"
    by (simp_all add: wf_board_def)
  consider (row_out) "\<not> row < 9"
    | (col_out) "row < 9" "\<not> col < 9"
    | (locked) "row < 9" "col < 9" "initialGrid s ! row ! col \<noteq> Some 0 \<or> gameOver"
    | (editable) "row < 9" "col < 9" "initialGrid s ! row ! col = Some 0" "\<not> gameOver"
    by blast
  then show ?thesis
  proof cases
    case row_out
    then show ?thesis
      using wf sh(2) by (simp add: handleCellClick_def cell_at_row_out)
  next
    case col_out
    then show ?thesis
      using wf sh(2) by (simp add: handleCellClick_def cell_at_col_out)
  next
    case locked
    then show ?thesis
      using wf sh(2) by (auto simp: handleCellClick_def cell_at_shape9)
  next
    case editable
    from editable(4) have g: "gameOver = False" by simp
    note out = handleCellClick_editable [OF wf editable(1-3) refl refl refl]
    show ?thesis
      unfolding g out using sh editable(1-3)
      by (auto simp: wf_board_def shape9_update nth_update2)
  qed
qed

lemma step_keeps:
  assumes "wf_board (snd ss)"
  shows "wf_board (snd (fst (step ss e))) \<and>
         initialGrid (snd (fst (step ss e))) = initialGrid (snd ss) \<and>
         (\<forall>r<9. \<forall>c<9. initialGrid (snd ss) ! r ! c \<noteq> Some 0 \<longrightarrow>
            grid (snd (fst (step ss e))) ! r ! c = grid (snd ss) ! r ! c)"
proof (cases ss)
  case (Pair gameOver s)
  with assms have wf: "wf_board s" by simp
  show ?thesis
  proof (cases e)
    case (Click row col)
    show ?thesis
      unfolding Pair Click using handleCellClick_keeps [OF wf, of gameOver row col]
      by (simp add: Let_def)
  next
    case (Select n)
    show ?thesis
      unfolding Pair Select using wf by (simp add: handleNumberSelect_def wf_board_def)
  next
    case (GameOverProp b)
    show ?thesis
      unfolding Pair GameOverProp using wf by simp
  qed
qed

lemma run_keeps:
  "wf_board (snd ss) \<Longrightarrow>
   wf_board (snd (run ss evs)) \<and>
   initialGrid (snd (run ss evs)) = initialGrid (snd ss) \<and>
   (\<forall>r<9. \<forall>c<9. initialGrid (snd ss) ! r ! c \<noteq> Some 0 \<longrightarrow>
      grid (snd (run ss evs)) ! r ! c = grid (snd ss) ! r ! c)"
proof (induction evs arbitrary: ss)
  case Nil
  then show ?case by simp
next
  case (Cons e evs)
  note st = step_keeps [OF Cons.prems, of e]
  from st have wf': "wf_board (snd (fst (step ss e)))" by blast
  note ih = Cons.IH [OF wf']
  show ?case
    unfolding run.simps using st ih by simp
qed

section \<open>The validator\<close>

text \<open>
  C3: on a 9x9 grid and a cell inside it, \<open>isValidMove\<close> returns, and it returns true
  exactly when the digit occurs nowhere else in the cell's row, nowhere else in its
  column, and at no other cell of the 3x3 box that starts at
  \<open>(row - row % 3, col - col % 3)\<close>. This holds for every number, so for the digits
  1 to 9, and whatever the cell itself holds.
\<close>

theorem isValidMove_iff:
  assumes "shape9 g" "row < 9" "col < 9"
  shows "isValidMove g row col digit =
     Inr ((\<forall>x<9. x \<noteq> col \<longrightarrow> g ! row ! x \<noteq> Some digit) \<and>
          (\<forall>x<9. x \<noteq> row \<longrightarrow> g ! x ! col \<noteq> Some digit) \<and>
          (\<forall>i<3. \<forall>j<3.
             row - row mod 3 + i \<noteq> row \<or> col - col mod 3 + j \<noteq> col \<longrightarrow>
             g ! (row - row mod 3 + i) ! (col - col mod 3 + j) \<noteq> Some digit))"
  using assms by (rule isValidMove_shape9)

theorem isValidMove_iff_witness:
  "shape9 (map (map Some) easy) \<and> (0::nat) < 9 \<and> (2::nat) < 9 \<and>
   \<not> ((\<forall>x<9. x \<noteq> 2 \<longrightarrow> map (map Some) easy ! 0 ! x \<noteq> Some 5) \<and>
      (\<forall>x<9. x \<noteq> 0 \<longrightarrow> map (map Some) easy ! x ! 2 \<noteq> Some 5) \<and>
      (\<forall>i<3. \<forall>j<3.
         0 - 0 mod 3 + i \<noteq> 0 \<or> 2 - 2 mod 3 + j \<noteq> 2 \<longrightarrow>
         map (map Some) easy ! (0 - 0 mod 3 + i) ! (2 - 2 mod 3 + j) \<noteq> Some 5))"
proof -
  have v: "isValidMove (map (map Some) easy) 0 2 5 = Inr False"
    by code_simp
  have h: "(0::nat) < 9" "(2::nat) < 9" by simp_all
  show ?thesis
    using isValidMove_iff [OF easy_shape h, of 5] easy_shape unfolding v by simp
qed

lemma transpose_shape9:
  assumes "shape9 g"
  shows "transpose g = map (\<lambda>c. map (\<lambda>r. g ! r ! c) [0..<9]) [0..<9]"
proof -
  from assms have l: "length g = 9" and r: "\<And>i. i < length g \<Longrightarrow> length (g ! i) = 9"
    by (simp_all add: shape9_iff)
  have e: "g = [] \<Longrightarrow> (9::nat) = 0" using l by auto
  show ?thesis
    using transpose_rectangle [of g 9, OF e r] l by simp
qed

lemma shape9_transpose: "shape9 g \<Longrightarrow> shape9 (transpose g)"
  by (simp add: transpose_shape9 shape9_def list_all_iff)

lemma nth_transpose_shape9:
  "shape9 g \<Longrightarrow> r < 9 \<Longrightarrow> c < 9 \<Longrightarrow> transpose g ! c ! r = g ! r ! c"
  by (simp add: transpose_shape9)

text \<open>
  C8: on a 9x9 grid and a cell inside it, \<open>isValidMove\<close> gives the same answer on the
  transposed grid at the transposed cell, and running the row, column and box scans
  in any order (any list that holds all three) gives the answer of \<open>isValidMove\<close>.
\<close>

theorem isValidMove_symmetric:
  assumes "shape9 g" "row < 9" "col < 9"
    and "set ord = {RowScan, ColScan, BoxScan}"
  shows "isValidMove (transpose g) col row d = isValidMove g row col d \<and>
         scans_in_order ord g row col d = isValidMove g row col d"
proof -
  have t: "shape9 (transpose g)"
    using assms(1) by (rule shape9_transpose)
  have n: "\<And>r c. r < 9 \<Longrightarrow> c < 9 \<Longrightarrow> transpose g ! c ! r = g ! r ! c"
    using assms(1) by (rule nth_transpose_shape9)
  have rows: "(\<forall>x<9. x \<noteq> row \<longrightarrow> transpose g ! col ! x \<noteq> Some d) \<longleftrightarrow>
              (\<forall>x<9. x \<noteq> row \<longrightarrow> g ! x ! col \<noteq> Some d)"
    using n assms(3) by auto
  have cols: "(\<forall>x<9. x \<noteq> col \<longrightarrow> transpose g ! x ! row \<noteq> Some d) \<longleftrightarrow>
              (\<forall>x<9. x \<noteq> col \<longrightarrow> g ! row ! x \<noteq> Some d)"
    using n assms(2) by auto
  have cell: "\<And>i j. i < 3 \<Longrightarrow> j < 3 \<Longrightarrow>
      transpose g ! (col - col mod 3 + i) ! (row - row mod 3 + j) =
      g ! (row - row mod 3 + j) ! (col - col mod 3 + i)"
    using n box_bound assms(2,3) by blast
  have box: "(\<forall>i<3. \<forall>j<3.
        col - col mod 3 + i \<noteq> col \<or> row - row mod 3 + j \<noteq> row \<longrightarrow>
        transpose g ! (col - col mod 3 + i) ! (row - row mod 3 + j) \<noteq> Some d) \<longleftrightarrow>
      (\<forall>i<3. \<forall>j<3.
        row - row mod 3 + i \<noteq> row \<or> col - col mod 3 + j \<noteq> col \<longrightarrow>
        g ! (row - row mod 3 + i) ! (col - col mod 3 + j) \<noteq> Some d)"
    using cell by (metis (no_types, lifting))
  have sym: "isValidMove (transpose g) col row d = isValidMove g row col d"
    unfolding isValidMove_shape9 [OF t assms(3,2)] isValidMove_shape9 [OF assms(1-3)]
      rows cols box
    by blast
  have "set ord = set [RowScan, ColScan, BoxScan]"
    using assms(4) by simp
  then have ord: "scans_in_order ord g row col d = isValidMove g row col d"
    unfolding isValidMove_scans scans_in_order_shape9 [OF assms(1-3)] by simp
  show ?thesis
    using sym ord by blast
qed

theorem isValidMove_symmetric_witness:
  "shape9 (map (map Some) easy) \<and> (0::nat) < 9 \<and> (2::nat) < 9 \<and>
   set [BoxScan, ColScan, RowScan] = {RowScan, ColScan, BoxScan} \<and>
   isValidMove (transpose (map (map Some) easy)) 2 0 5 =
     isValidMove (map (map Some) easy) 0 2 5 \<and>
   scans_in_order [BoxScan, ColScan, RowScan] (map (map Some) easy) 0 2 5 =
     isValidMove (map (map Some) easy) 0 2 5"
proof -
  have h: "(0::nat) < 9" "(2::nat) < 9" by simp_all
  have o: "set [BoxScan, ColScan, RowScan] = {RowScan, ColScan, BoxScan}" by auto
  show ?thesis
    using isValidMove_symmetric [OF easy_shape h o, of 5] easy_shape o by simp
qed

section \<open>The solved check\<close>

lemma easy_before_last_wf: "wf_board (snd easy_before_last)"
proof -
  have "wf_board (snd (False, start Easy))"
    by (simp add: wf_board_start)
  from run_keeps [OF this] show ?thesis
    unfolding easy_before_last_def by blast
qed

lemma easy_before_last_editable: "initialGrid (snd easy_before_last) ! 8 ! 6 = Some 0"
proof -
  have "wf_board (snd (False, start Easy))"
    by (simp add: wf_board_start)
  from run_keeps [OF this]
  have "initialGrid (snd easy_before_last) = initialGrid (start Easy)"
    unfolding easy_before_last_def by simp
  then show ?thesis
    by (simp add: start_cells easy_def)
qed

lemma easy_before_last_signal:
  "OnSolved \<in> set (emitted (handleCellClick False (snd easy_before_last) 8 6))"
  by code_simp

text \<open>
  C2: a click that places a digit on an editable cell commits the grid \<open>G\<close>, which is
  the grid before the click with the picked digit written into the clicked cell, and
  the error flags \<open>E\<close>, which are the flags before the click with the clicked cell's
  flag set from the validator's verdict. It calls \<open>onSolved\<close> exactly when \<open>G\<close> has no
  cell equal to 0 and \<open>E\<close> has no flag set. Spelled out on the state before the click:
  exactly when the digit is accepted at the clicked cell and, at every other cell,
  the stored value is not 0 and the stored error flag is unset. The validator is
  asked about the clicked cell only; the other cells are judged by their stored
  flags, not scanned again.
\<close>

theorem solved_signal_iff:
  assumes "wf_board s" "row < 9" "col < 9" "initialGrid s ! row ! col = Some 0"
    and "out = handleCellClick False s row col"
    and "G = (grid s)[row := (grid s ! row)[col := Some (selectedNumber s)]]"
    and "E = (errors s)[row := (errors s ! row)
               [col := Some (selectedNumber s \<noteq> 0 \<and>
                             isValidMove G row col (selectedNumber s) = Inr False)]]"
  shows "grid (final_state out) = G \<and> errors (final_state out) = E \<and>
     (OnSolved \<in> set (emitted out) \<longleftrightarrow>
        (\<forall>r<9. \<forall>c<9. G ! r ! c \<noteq> Some 0) \<and> (\<forall>r<9. \<forall>c<9. E ! r ! c \<noteq> Some True)) \<and>
     (OnSolved \<in> set (emitted out) \<longleftrightarrow>
        selectedNumber s \<noteq> 0 \<and>
        isValidMove G row col (selectedNumber s) = Inr True \<and>
        (\<forall>r<9. \<forall>c<9. r \<noteq> row \<or> c \<noteq> col \<longrightarrow> grid s ! r ! c \<noteq> Some 0) \<and>
        (\<forall>r<9. \<forall>c<9. r \<noteq> row \<or> c \<noteq> col \<longrightarrow> errors s ! r ! c \<noteq> Some True))"
proof -
  let ?n = "selectedNumber s"
  let ?valid = "?n = 0 \<or> isValidMove G row col ?n = Inr True"
  from assms(1) have sh: "shape9 (grid s)" "shape9 (errors s)"
    by (simp_all add: wf_board_def)
  have shG: "shape9 G"
    unfolding assms(6) using sh(1) by (rule shape9_update)
  obtain b where b: "isValidMove G row col ?n = Inr b"
    using isValidMove_total [OF shG assms(2,3)] by blast
  have inv: "(?n \<noteq> 0 \<and> isValidMove G row col ?n = Inr False) \<longleftrightarrow> \<not> ?valid"
    unfolding b by auto
  have E': "E = (errors s)[row := (errors s ! row)[col := Some (\<not> ?valid)]]"
    unfolding assms(7) inv ..
  note click = handleCellClick_editable [OF assms(1-4) assms(6) E' refl]
  have g: "grid (final_state out) = G" and e: "errors (final_state out) = E"
    unfolding assms(5) click by simp_all
  have sig: "OnSolved \<in> set (emitted out) \<longleftrightarrow>
        (\<forall>r<9. \<forall>c<9. G ! r ! c \<noteq> Some 0) \<and> (\<forall>r<9. \<forall>c<9. E ! r ! c \<noteq> Some True)"
    unfolding assms(5) click by auto
  have Gc: "G ! r ! c = (if r = row \<and> c = col then Some ?n else grid s ! r ! c)"
    if "r < 9" "c < 9" for r c
    unfolding assms(6) using sh(1) assms(2,3) that by (rule nth_update2)
  have Ec: "E ! r ! c = (if r = row \<and> c = col then Some (\<not> ?valid) else errors s ! r ! c)"
    if "r < 9" "c < 9" for r c
    unfolding E' using sh(2) assms(2,3) that by (rule nth_update2)
  have zeros: "(\<forall>r<9. \<forall>c<9. G ! r ! c \<noteq> Some 0) \<longleftrightarrow>
      ?n \<noteq> 0 \<and> (\<forall>r<9. \<forall>c<9. r \<noteq> row \<or> c \<noteq> col \<longrightarrow> grid s ! r ! c \<noteq> Some 0)"
  proof
    assume a: "\<forall>r<9. \<forall>c<9. G ! r ! c \<noteq> Some 0"
    have "G ! row ! col \<noteq> Some 0" using a assms(2,3) by blast
    then have "?n \<noteq> 0" using Gc [OF assms(2,3)] by simp
    moreover have "grid s ! r ! c \<noteq> Some 0" if "r < 9" "c < 9" "r \<noteq> row \<or> c \<noteq> col" for r c
    proof -
      have "G ! r ! c \<noteq> Some 0" using a that(1,2) by blast
      then show ?thesis using Gc [OF that(1,2)] that(3) by auto
    qed
    ultimately show "?n \<noteq> 0 \<and>
        (\<forall>r<9. \<forall>c<9. r \<noteq> row \<or> c \<noteq> col \<longrightarrow> grid s ! r ! c \<noteq> Some 0)"
      by blast
  next
    assume a: "?n \<noteq> 0 \<and>
        (\<forall>r<9. \<forall>c<9. r \<noteq> row \<or> c \<noteq> col \<longrightarrow> grid s ! r ! c \<noteq> Some 0)"
    show "\<forall>r<9. \<forall>c<9. G ! r ! c \<noteq> Some 0"
    proof (intro allI impI)
      fix r c :: nat
      assume lt: "r < 9" "c < 9"
      show "G ! r ! c \<noteq> Some 0"
        using Gc [OF lt] a lt by auto
    qed
  qed
  have flags: "(\<forall>r<9. \<forall>c<9. E ! r ! c \<noteq> Some True) \<longleftrightarrow>
      ?valid \<and> (\<forall>r<9. \<forall>c<9. r \<noteq> row \<or> c \<noteq> col \<longrightarrow> errors s ! r ! c \<noteq> Some True)"
  proof
    assume a: "\<forall>r<9. \<forall>c<9. E ! r ! c \<noteq> Some True"
    have "E ! row ! col \<noteq> Some True" using a assms(2,3) by blast
    then have "?valid" using Ec [OF assms(2,3)] by simp
    moreover have "errors s ! r ! c \<noteq> Some True"
      if "r < 9" "c < 9" "r \<noteq> row \<or> c \<noteq> col" for r c
    proof -
      have "E ! r ! c \<noteq> Some True" using a that(1,2) by blast
      then show ?thesis using Ec [OF that(1,2)] that(3) by auto
    qed
    ultimately show "?valid \<and>
        (\<forall>r<9. \<forall>c<9. r \<noteq> row \<or> c \<noteq> col \<longrightarrow> errors s ! r ! c \<noteq> Some True)"
      by blast
  next
    assume a: "?valid \<and>
        (\<forall>r<9. \<forall>c<9. r \<noteq> row \<or> c \<noteq> col \<longrightarrow> errors s ! r ! c \<noteq> Some True)"
    show "\<forall>r<9. \<forall>c<9. E ! r ! c \<noteq> Some True"
    proof (intro allI impI)
      fix r c :: nat
      assume lt: "r < 9" "c < 9"
      show "E ! r ! c \<noteq> Some True"
        using Ec [OF lt] a lt by auto
    qed
  qed
  have sig2: "OnSolved \<in> set (emitted out) \<longleftrightarrow>
        ?n \<noteq> 0 \<and> isValidMove G row col ?n = Inr True \<and>
        (\<forall>r<9. \<forall>c<9. r \<noteq> row \<or> c \<noteq> col \<longrightarrow> grid s ! r ! c \<noteq> Some 0) \<and>
        (\<forall>r<9. \<forall>c<9. r \<noteq> row \<or> c \<noteq> col \<longrightarrow> errors s ! r ! c \<noteq> Some True)"
    unfolding sig zeros flags by blast
  show ?thesis
    using g e sig sig2 by blast
qed

theorem solved_signal_iff_witness:
  "wf_board (snd easy_before_last) \<and> (8::nat) < 9 \<and> (6::nat) < 9 \<and>
   initialGrid (snd easy_before_last) ! 8 ! 6 = Some 0 \<and>
   OnSolved \<in> set (emitted (handleCellClick False (snd easy_before_last) 8 6)) \<and>
   selectedNumber (snd easy_before_last) \<noteq> 0 \<and>
   isValidMove
     ((grid (snd easy_before_last))
        [8 := (grid (snd easy_before_last) ! 8)
                [6 := Some (selectedNumber (snd easy_before_last))]])
     8 6 (selectedNumber (snd easy_before_last)) = Inr True \<and>
   grid (final_state (handleCellClick False (snd easy_before_last) 8 6)) =
     (grid (snd easy_before_last))
        [8 := (grid (snd easy_before_last) ! 8)
                [6 := Some (selectedNumber (snd easy_before_last))]]"
proof -
  have h: "(8::nat) < 9" "(6::nat) < 9" by simp_all
  show ?thesis
    using solved_signal_iff [OF easy_before_last_wf h easy_before_last_editable refl refl refl]
      easy_before_last_wf h easy_before_last_editable easy_before_last_signal
    by blast
qed

text \<open>
  C10: a click whose digit \<open>isValidMove\<close> rejects never calls \<open>onSolved\<close>: the error
  flag that the rejection stores makes \<open>some\<close> over the error flags true, which is
  the negated conjunct of the solved check. No assumption on the shape of the board.
\<close>

theorem invalid_never_solved:
  assumes "selectedNumber s \<noteq> 0"
    and "set_cell (grid s) row col (selectedNumber s) = Inr G"
    and "isValidMove G row col (selectedNumber s) = Inr False"
  shows "OnSolved \<notin> set (emitted (handleCellClick gameOver s row col)) \<and>
         (\<forall>E. set_cell (errors s) row col True = Inr E \<longrightarrow> some_error E)"
  using assms
  by (auto simp: handleCellClick_def mark_def commit_def Let_def set_cell_True_some_error
      split: sum.splits)

theorem invalid_never_solved_witness:
  "selectedNumber (handleNumberSelect (start Easy) 5) \<noteq> 0 \<and>
   set_cell (grid (handleNumberSelect (start Easy) 5)) 0 2
       (selectedNumber (handleNumberSelect (start Easy) 5)) =
     Inr ((grid (handleNumberSelect (start Easy) 5))
            [0 := (grid (handleNumberSelect (start Easy) 5) ! 0)[2 := Some 5]]) \<and>
   isValidMove
       ((grid (handleNumberSelect (start Easy) 5))
            [0 := (grid (handleNumberSelect (start Easy) 5) ! 0)[2 := Some 5]])
       0 2 (selectedNumber (handleNumberSelect (start Easy) 5)) = Inr False \<and>
   OnSolved \<notin> set (emitted (handleCellClick False (handleNumberSelect (start Easy) 5) 0 2))"
proof -
  have a: "selectedNumber (handleNumberSelect (start Easy) 5) \<noteq> 0"
    by (simp add: handleNumberSelect_def)
  have b: "set_cell (grid (handleNumberSelect (start Easy) 5)) 0 2
       (selectedNumber (handleNumberSelect (start Easy) 5)) =
     Inr ((grid (handleNumberSelect (start Easy) 5))
            [0 := (grid (handleNumberSelect (start Easy) 5) ! 0)[2 := Some 5]])"
    by code_simp
  have c: "isValidMove
       ((grid (handleNumberSelect (start Easy) 5))
            [0 := (grid (handleNumberSelect (start Easy) 5) ! 0)[2 := Some 5]])
       0 2 (selectedNumber (handleNumberSelect (start Easy) 5)) = Inr False"
    by code_simp
  show ?thesis
    using invalid_never_solved [OF a b c, of False] a b c by blast
qed

section \<open>Placements\<close>

text \<open>
  C4: a click on an editable cell of a well-formed board, with the game not over and
  a digit \<open>d\<close> picked, commits \<open>d\<close> into the cell whatever the validator says. If
  \<open>isValidMove\<close> says false, the cell's error flag is set and its correct flag unset,
  and the handler calls \<open>onError\<close> and shows the error toast (the rejected move); if it
  says true, the error flag is unset and the correct flag set, and the handler shows
  the success toast (the accepted move) and never calls \<open>onError\<close>.
\<close>

theorem placement_outcome:
  assumes "wf_board s" "row < 9" "col < 9" "initialGrid s ! row ! col = Some 0"
    and "selectedNumber s = d" "d \<noteq> 0"
    and "G = (grid s)[row := (grid s ! row)[col := Some d]]"
    and "out = handleCellClick False s row col"
  shows "(isValidMove G row col d = Inr False \<or> isValidMove G row col d = Inr True) \<and>
     grid (final_state out) ! row ! col = Some d \<and>
     (isValidMove G row col d = Inr False \<longrightarrow>
        errors (final_state out) ! row ! col = Some True \<and>
        correctCells (final_state out) ! row ! col = Some False \<and>
        take 2 (emitted out) = [OnError, ToastError d] \<and>
        ToastSuccess d \<notin> set (emitted out)) \<and>
     (isValidMove G row col d = Inr True \<longrightarrow>
        errors (final_state out) ! row ! col = Some False \<and>
        correctCells (final_state out) ! row ! col = Some True \<and>
        take 1 (emitted out) = [ToastSuccess d] \<and>
        OnError \<notin> set (emitted out) \<and> ToastError d \<notin> set (emitted out))"
proof -
  from assms(1) have sh: "shape9 (grid s)" "shape9 (errors s)" "shape9 (correctCells s)"
    by (simp_all add: wf_board_def)
  have G': "G = (grid s)[row := (grid s ! row)[col := Some (selectedNumber s)]]"
    using assms(5,7) by simp
  have shG: "shape9 G" unfolding G' using sh(1) by (rule shape9_update)
  obtain b where b: "isValidMove G row col d = Inr b"
    using isValidMove_total [OF shG assms(2,3)] by blast
  have v: "b \<longleftrightarrow> selectedNumber s = 0 \<or> isValidMove G row col (selectedNumber s) = Inr True"
    using assms(5,6) b by simp
  note out = handleCellClick_editable [OF assms(1-4) G' refl v]
  have Gc: "G ! row ! col = Some d"
    unfolding assms(7) using sh(1) assms(2,3) by (simp add: nth_update2)
  show ?thesis
    unfolding assms(8) out b using sh assms(2,3,5) Gc
    by (cases b) (simp_all add: nth_update2)
qed

theorem placement_outcome_witness:
  "wf_board (handleNumberSelect (start Easy) 5) \<and> (0::nat) < 9 \<and> (2::nat) < 9 \<and>
   initialGrid (handleNumberSelect (start Easy) 5) ! 0 ! 2 = Some 0 \<and>
   selectedNumber (handleNumberSelect (start Easy) 5) = 5 \<and> (5::int) \<noteq> 0 \<and>
   isValidMove
     ((grid (handleNumberSelect (start Easy) 5))
        [0 := (grid (handleNumberSelect (start Easy) 5) ! 0)[2 := Some 5]]) 0 2 5 = Inr False \<and>
   errors (final_state (handleCellClick False (handleNumberSelect (start Easy) 5) 0 2)) ! 0 ! 2
     = Some True \<and>
   grid (final_state (handleCellClick False (handleNumberSelect (start Easy) 5) 0 2)) ! 0 ! 2
     = Some 5 \<and>
   take 2 (emitted (handleCellClick False (handleNumberSelect (start Easy) 5) 0 2))
     = [OnError, ToastError 5]"
proof -
  have h: "(0::nat) < 9" "(2::nat) < 9" by simp_all
  have n: "selectedNumber (handleNumberSelect (start Easy) 5) = 5" "(5::int) \<noteq> 0"
    by (simp_all add: handleNumberSelect_def)
  have v: "isValidMove
     ((grid (handleNumberSelect (start Easy) 5))
        [0 := (grid (handleNumberSelect (start Easy) 5) ! 0)[2 := Some 5]]) 0 2 5 = Inr False"
    by code_simp
  show ?thesis
    using placement_outcome [OF wf_easy_5 h editable_easy_5 n refl refl]
      wf_easy_5 editable_easy_5 n v
    by simp
qed

text \<open>
  C9: a click on an editable cell with the game not over writes the picked digit over
  whatever the cell held (\<open>w\<close>), and sets both flags of the cell from the validator's
  verdict alone, whatever they were (\<open>e\<close>, \<open>c\<close>): the verdict is taken on the grid
  with the digit written in, which does not depend on \<open>w\<close>. So a valid placement on a
  cell whose error flag was set unsets it.
\<close>

theorem placement_recomputes:
  assumes "wf_board s" "row < 9" "col < 9" "initialGrid s ! row ! col = Some 0"
    and "valid \<longleftrightarrow> selectedNumber s = 0 \<or>
           isValidMove ((grid s)[row := (grid s ! row)[col := Some (selectedNumber s)]])
             row col (selectedNumber s) = Inr True"
    and "t = s\<lparr>grid := (grid s)[row := (grid s ! row)[col := w]],
               errors := (errors s)[row := (errors s ! row)[col := e]],
               correctCells := (correctCells s)[row := (correctCells s ! row)[col := c]]\<rparr>"
    and "out = handleCellClick False t row col"
  shows "grid (final_state out) ! row ! col = Some (selectedNumber s) \<and>
         errors (final_state out) ! row ! col = Some (\<not> valid) \<and>
         correctCells (final_state out) ! row ! col = Some valid \<and>
         (e = Some True \<and> valid \<longrightarrow> errors (final_state out) ! row ! col = Some False)"
proof -
  from assms(1) have sh: "shape9 (grid s)" "shape9 (initialGrid s)" "shape9 (errors s)"
    "shape9 (correctCells s)"
    by (simp_all add: wf_board_def)
  have len: "row < length (grid s)"
    using sh(1) assms(2) by (simp add: shape9_iff)
  have sht: "shape9 (grid t)" "shape9 (errors t)" "shape9 (correctCells t)"
    unfolding assms(6) using sh by (simp_all add: shape9_update)
  have wft: "wf_board t"
    using sht sh(2) unfolding wf_board_def assms(6) by simp
  have edt: "initialGrid t ! row ! col = Some 0"
    unfolding assms(6) using assms(4) by simp
  have G: "(grid s)[row := (grid s ! row)[col := Some (selectedNumber s)]] =
           (grid t)[row := (grid t ! row)[col := Some (selectedNumber t)]]"
    unfolding assms(6) using len by simp
  have v: "valid \<longleftrightarrow> selectedNumber t = 0 \<or>
      isValidMove ((grid s)[row := (grid s ! row)[col := Some (selectedNumber s)]])
        row col (selectedNumber t) = Inr True"
    using assms(5) unfolding assms(6) by simp
  note out = handleCellClick_editable [OF wft assms(2,3) edt G refl v]
  have n: "selectedNumber t = selectedNumber s"
    unfolding assms(6) by simp
  show ?thesis
    unfolding assms(7) out using sh sht assms(2,3) n
    by (simp add: nth_update2)
qed

theorem placement_recomputes_witness:
  "wf_board (handleNumberSelect (start Easy) 4) \<and> (0::nat) < 9 \<and> (2::nat) < 9 \<and>
   initialGrid (handleNumberSelect (start Easy) 4) ! 0 ! 2 = Some 0 \<and>
   isValidMove
     ((grid (handleNumberSelect (start Easy) 4))
        [0 := (grid (handleNumberSelect (start Easy) 4) ! 0)
                [2 := Some (selectedNumber (handleNumberSelect (start Easy) 4))]])
     0 2 (selectedNumber (handleNumberSelect (start Easy) 4)) = Inr True \<and>
   errors (final_state (handleCellClick False
     ((handleNumberSelect (start Easy) 4)
        \<lparr>grid := (grid (handleNumberSelect (start Easy) 4))
                   [0 := (grid (handleNumberSelect (start Easy) 4) ! 0)[2 := Some 5]],
         errors := (errors (handleNumberSelect (start Easy) 4))
                   [0 := (errors (handleNumberSelect (start Easy) 4) ! 0)[2 := Some True]],
         correctCells := (correctCells (handleNumberSelect (start Easy) 4))
                   [0 := (correctCells (handleNumberSelect (start Easy) 4) ! 0)[2 := Some False]]\<rparr>)
     0 2)) ! 0 ! 2 = Some False"
proof -
  have h: "(0::nat) < 9" "(2::nat) < 9" by simp_all
  have v: "isValidMove
     ((grid (handleNumberSelect (start Easy) 4))
        [0 := (grid (handleNumberSelect (start Easy) 4) ! 0)
                [2 := Some (selectedNumber (handleNumberSelect (start Easy) 4))]])
     0 2 (selectedNumber (handleNumberSelect (start Easy) 4)) = Inr True"
    by code_simp
  have v': "True \<longleftrightarrow> selectedNumber (handleNumberSelect (start Easy) 4) = 0 \<or>
     isValidMove
     ((grid (handleNumberSelect (start Easy) 4))
        [0 := (grid (handleNumberSelect (start Easy) 4) ! 0)
                [2 := Some (selectedNumber (handleNumberSelect (start Easy) 4))]])
     0 2 (selectedNumber (handleNumberSelect (start Easy) 4)) = Inr True"
    using v by simp
  show ?thesis
    using placement_recomputes [where w = "Some 5" and e = "Some True" and c = "Some False",
        OF wf_easy_4 h editable_easy_0_2 v' refl refl]
      wf_easy_4 editable_easy_0_2 v
    by simp
qed

text \<open>
  C7: on the freshly loaded easy puzzle, picking 4 and clicking cell (0,2) shows the
  success toast and sets the cell's correct flag (and not its error flag); picking 5
  and clicking the same cell calls \<open>onError\<close> and shows the error toast, 5 being at
  row 0, column 0.
\<close>

theorem easy_examples:
  "emitted (handleCellClick False (handleNumberSelect (start Easy) 4) 0 2) = [ToastSuccess 4] \<and>
   cell_at (correctCells (final_state
       (handleCellClick False (handleNumberSelect (start Easy) 4) 0 2))) 0 2 = Inr (Some True) \<and>
   cell_at (errors (final_state
       (handleCellClick False (handleNumberSelect (start Easy) 4) 0 2))) 0 2 = Inr (Some False) \<and>
   emitted (handleCellClick False (handleNumberSelect (start Easy) 5) 0 2)
     = [OnError, ToastError 5] \<and>
   cell_at (grid (start Easy)) 0 0 = Inr (Some 5)"
  by code_simp

theorem easy_examples_witness:
  "emitted (handleCellClick False (handleNumberSelect (start Easy) 4) 0 2) = [ToastSuccess 4] \<and>
   emitted (handleCellClick False (handleNumberSelect (start Easy) 5) 0 2)
     = [OnError, ToastError 5]"
  using easy_examples by blast

section \<open>Prefilled cells\<close>

text \<open>
  C5: in every state a session reaches from a load, by any sequence of clicks, digit
  picks and changes of \<open>gameOver\<close>, a click on a prefilled cell returns at the guard
  (the locked cell: no state change, no signal), and the working grid still holds
  the puzzle's digit there, as \<open>initialGrid\<close> does.
\<close>

theorem prefilled_cells_locked:
  assumes "row < 9" "col < 9" "sudokuPuzzles d ! row ! col \<noteq> 0"
    and "ss = run (gameOver0, start d) evs"
  shows "handleCellClick gameOver (snd ss) row col = Done (snd ss) [] \<and>
         grid (snd ss) ! row ! col = Some (sudokuPuzzles d ! row ! col) \<and>
         initialGrid (snd ss) ! row ! col = Some (sudokuPuzzles d ! row ! col)"
proof -
  have wf: "wf_board (snd (gameOver0, start d))"
    by (simp add: wf_board_start)
  note k = run_keeps [OF wf, of evs, folded assms(4)]
  have i: "initialGrid (snd ss) ! row ! col = Some (sudokuPuzzles d ! row ! col)"
    using k assms(1,2) by (simp add: start_cells)
  then have n: "initialGrid (snd ss) ! row ! col \<noteq> Some 0"
    using assms(3) by simp
  have sh: "shape9 (initialGrid (snd ss))"
    using k unfolding wf_board_def by blast
  have g: "grid (snd ss) ! row ! col = Some (sudokuPuzzles d ! row ! col)"
    using k assms(1,2,3) by (simp add: start_cells)
  show ?thesis
    using handleCellClick_locked [OF sh assms(1,2) n] g i by simp
qed

theorem prefilled_cells_locked_witness:
  "(0::nat) < 9 \<and> sudokuPuzzles Easy ! 0 ! 0 \<noteq> 0 \<and>
   handleCellClick False (snd (run (False, start Easy) [Select 7, Click 0 0, Click 0 2])) 0 0 =
     Done (snd (run (False, start Easy) [Select 7, Click 0 0, Click 0 2])) [] \<and>
   grid (snd (run (False, start Easy) [Select 7, Click 0 0, Click 0 2])) ! 0 ! 0 = Some 5"
proof -
  have h: "(0::nat) < 9" by simp
  have p: "sudokuPuzzles Easy ! 0 ! 0 \<noteq> 0" "sudokuPuzzles Easy ! 0 ! 0 = 5"
    by (simp_all add: easy_def)
  show ?thesis
    using prefilled_cells_locked [where gameOver0 = False and gameOver = False
        and evs = "[Select 7, Click 0 0, Click 0 2]", OF h h p(1) refl] p
    by simp
qed

section \<open>Game over, and after the puzzle is solved\<close>

text \<open>
  C1, as amended: while \<open>gameOver\<close> is true, a click is a no-op whatever the row, the
  column and the picked digit: no part of the state changes and nothing is signalled
  (out of the rows of \<open>initialGrid\<close> the guard throws before anything is done).
\<close>

theorem game_over_noop:
  "final_state (handleCellClick True s row col) = s \<and>
   emitted (handleCellClick True s row col) = []"
  by (simp add: handleCellClick_def split: sum.splits)

theorem game_over_noop_witness:
  "final_state (handleCellClick True (handleNumberSelect (start Easy) 4) 0 2) =
     handleNumberSelect (start Easy) 4 \<and>
   emitted (handleCellClick True (handleNumberSelect (start Easy) 4) 0 2) = [] \<and>
   final_state (handleCellClick True (handleNumberSelect (start Easy) 4) 9 0) =
     handleNumberSelect (start Easy) 4 \<and>
   emitted (handleCellClick True (handleNumberSelect (start Easy) 4) 9 0) = []"
  using game_over_noop [of "handleNumberSelect (start Easy) 4" 0 2]
    game_over_noop [of "handleNumberSelect (start Easy) 4" 9 0]
  by blast

lemma easy_solved_state:
  "easy_solved =
     (False,
      \<lparr>grid = map (map Some) easy_solution,
       initialGrid = map (map Some) easy,
       errors = replicate 9 (replicate 9 (Some False)),
       correctCells = map (map (\<lambda>v. Some (v = 0))) easy,
       selectedNumber = 1, selectedCell = Some (8, 6), highlightedNumber = Some 1\<rparr>)"
  by code_simp

lemma easy_solved_signal:
  "last (trace (False, start Easy) (fill easy_solution (empty_cells easy))) =
     [ToastSuccess 1, OnSolved]"
  by code_simp

text \<open>
  C1, as stated, fails for a solved session: the component keeps no record of having
  called \<open>onSolved\<close>, and its guard tests \<open>gameOver\<close> only. After the easy puzzle has
  been filled with its solution (the last click called \<open>onSolved\<close>), picking 5 and
  clicking cell (0,2), which held 4, writes 5 there, sets the error flag and calls
  \<open>onError\<close>.
\<close>

theorem solved_session_not_locked:
  "OnSolved \<in> set (last (trace (False, start Easy) (fill easy_solution (empty_cells easy)))) \<and>
   fst easy_solved = False \<and>
   cell_at (grid (snd easy_solved)) 0 2 = Inr (Some 4) \<and>
   cell_at (grid (final_state
       (handleCellClick (fst easy_solved) (handleNumberSelect (snd easy_solved) 5) 0 2))) 0 2
     = Inr (Some 5) \<and>
   cell_at (errors (final_state
       (handleCellClick (fst easy_solved) (handleNumberSelect (snd easy_solved) 5) 0 2))) 0 2
     = Inr (Some True) \<and>
   emitted (handleCellClick (fst easy_solved) (handleNumberSelect (snd easy_solved) 5) 0 2)
     = [OnError, ToastError 5]"
proof -
  have a: "OnSolved \<in> set (last (trace (False, start Easy)
      (fill easy_solution (empty_cells easy))))"
    unfolding easy_solved_signal by simp
  have b: "fst easy_solved = False"
    unfolding easy_solved_state by simp
  have c: "cell_at (grid (snd easy_solved)) 0 2 = Inr (Some 4)"
    unfolding easy_solved_state by code_simp
  have d: "cell_at (grid (final_state
       (handleCellClick (fst easy_solved) (handleNumberSelect (snd easy_solved) 5) 0 2))) 0 2
     = Inr (Some 5)"
    unfolding easy_solved_state by code_simp
  have e: "cell_at (errors (final_state
       (handleCellClick (fst easy_solved) (handleNumberSelect (snd easy_solved) 5) 0 2))) 0 2
     = Inr (Some True)"
    unfolding easy_solved_state by code_simp
  have f: "emitted (handleCellClick (fst easy_solved)
       (handleNumberSelect (snd easy_solved) 5) 0 2) = [OnError, ToastError 5]"
    unfolding easy_solved_state by code_simp
  show ?thesis
    using a b c d e f by blast
qed

section \<open>Filling a puzzle with a solution\<close>

lemma solution_correct: "correct_solution (sudokuPuzzles d) (solution d)"
proof (cases d)
  case Easy
  have "correct_solution easy easy_solution" by code_simp
  with Easy show ?thesis by simp
next
  case Medium
  have "correct_solution medium medium_solution" by code_simp
  with Medium show ?thesis by simp
next
  case Hard
  have "correct_solution hard hard_solution" by code_simp
  with Hard show ?thesis by simp
qed

lemma correct_solutionD:
  assumes "correct_solution p sol"
  shows "shape9 sol"
    and "\<And>r c. r < 9 \<Longrightarrow> c < 9 \<Longrightarrow> sol ! r ! c \<noteq> 0"
    and "\<And>r c. r < 9 \<Longrightarrow> c < 9 \<Longrightarrow> p ! r ! c \<noteq> 0 \<Longrightarrow> sol ! r ! c = p ! r ! c"
    and "\<And>r. r < 9 \<Longrightarrow> distinct (sol ! r)"
    and "\<And>c. c < 9 \<Longrightarrow> distinct (map (\<lambda>r. sol ! r ! c) [0..<9])"
    and "\<And>br bc. br < 3 \<Longrightarrow> bc < 3 \<Longrightarrow>
           distinct (map (\<lambda>(i, j). sol ! (3 * br + i) ! (3 * bc + j))
                       (List.product [0..<3] [0..<3]))"
proof -
  show sh: "shape9 sol"
    using assms by (simp add: correct_solution_def)
  show "sol ! r ! c \<noteq> 0" if "r < 9" "c < 9" for r c
  proof -
    have "list_all (list_all (\<lambda>v. 1 \<le> v \<and> v \<le> 9)) sol"
      using assms by (simp add: correct_solution_def)
    moreover have "sol ! r \<in> set sol" "sol ! r ! c \<in> set (sol ! r)"
      using sh that by (simp_all add: shape9_iff)
    ultimately have "1 \<le> sol ! r ! c"
      unfolding list_all_iff by blast
    then show ?thesis by simp
  qed
  show "sol ! r ! c = p ! r ! c" if "r < 9" "c < 9" "p ! r ! c \<noteq> 0" for r c
  proof -
    have "list_all (\<lambda>(r, c). p ! r ! c \<noteq> 0 \<longrightarrow> sol ! r ! c = p ! r ! c)
            (List.product [0..<9] [0..<9])"
      using assms by (simp add: correct_solution_def)
    moreover have "(r, c) \<in> set (List.product [0..<9] [0..<9])"
      using that by simp
    ultimately show ?thesis
      unfolding list_all_iff using that(3) by blast
  qed
  show "distinct (sol ! r)" if "r < 9" for r
  proof -
    have "list_all (\<lambda>r. distinct (sol ! r)) [0..<9]"
      using assms by (simp add: correct_solution_def)
    then show ?thesis
      unfolding list_all_iff using that by simp
  qed
  show "distinct (map (\<lambda>r. sol ! r ! c) [0..<9])" if "c < 9" for c
  proof -
    have "list_all (\<lambda>c. distinct (map (\<lambda>r. sol ! r ! c) [0..<9])) [0..<9]"
      using assms by (simp add: correct_solution_def)
    then show ?thesis
      unfolding list_all_iff using that by simp
  qed
  show "distinct (map (\<lambda>(i, j). sol ! (3 * br + i) ! (3 * bc + j))
                       (List.product [0..<3] [0..<3]))" if "br < 3" "bc < 3" for br bc
  proof -
    have "list_all (\<lambda>(br, bc).
         distinct (map (\<lambda>(i, j). sol ! (3 * br + i) ! (3 * bc + j))
                     (List.product [0..<3] [0..<3])))
       (List.product [0..<3] [0..<3])"
      using assms by (simp add: correct_solution_def)
    moreover have "(br, bc) \<in> set (List.product [0..<3] [0..<3])"
      using that by simp
    ultimately show ?thesis
      unfolding list_all_iff by blast
  qed
qed

text \<open>No digit of a solution occurs twice in a row, a column or a box.\<close>

lemma solution_row:
  assumes "correct_solution p sol" "r < 9" "c < 9" "x < 9" "x \<noteq> c"
  shows "sol ! r ! x \<noteq> sol ! r ! c"
proof -
  have "distinct (sol ! r)" "length (sol ! r) = 9"
    using correct_solutionD(1,4) [OF assms(1)] assms(2) by (simp_all add: shape9_iff)
  then show ?thesis
    using assms(3-5) by (simp add: nth_eq_iff_index_eq)
qed

lemma solution_col:
  assumes "correct_solution p sol" "r < 9" "c < 9" "x < 9" "x \<noteq> r"
  shows "sol ! x ! c \<noteq> sol ! r ! c"
proof -
  have d: "distinct (map (\<lambda>r. sol ! r ! c) [0..<9])"
    using correct_solutionD(5) [OF assms(1) assms(3)] .
  have "map (\<lambda>r. sol ! r ! c) [0..<9] ! x \<noteq> map (\<lambda>r. sol ! r ! c) [0..<9] ! r"
    using d assms(2,4,5) by (simp only: nth_eq_iff_index_eq length_map length_upt) simp
  then show ?thesis
    using assms(2,4) by simp
qed

lemma solution_box:
  assumes "correct_solution p sol" "r < 9" "c < 9" "i < 3" "j < 3"
    and "r - r mod 3 + i \<noteq> r \<or> c - c mod 3 + j \<noteq> c"
  shows "sol ! (r - r mod 3 + i) ! (c - c mod 3 + j) \<noteq> sol ! r ! c"
proof -
  let ?f = "\<lambda>(i, j). sol ! (3 * (r div 3) + i) ! (3 * (c div 3) + j)"
  have b: "r div 3 < 3" "c div 3 < 3"
    using assms(2,3) by simp_all
  have "distinct (map ?f (List.product [0..<3] [0..<3]))"
    using correct_solutionD(6) [OF assms(1) b] .
  then have inj: "inj_on ?f (set (List.product [0..<3] [0..<3]))"
    by (simp only: distinct_map)
  have m: "(i, j) \<in> set (List.product [0..<3] [0..<3])"
    "(r mod 3, c mod 3) \<in> set (List.product [0..<3] [0..<3])"
    using assms(4,5) by simp_all
  have rr: "r - r mod 3 = 3 * (r div 3)" "c - c mod 3 = 3 * (c div 3)"
    by presburger+
  have ne: "(i, j) \<noteq> (r mod 3, c mod 3)"
    using assms(6) unfolding rr by auto
  have "?f (i, j) \<noteq> ?f (r mod 3, c mod 3)"
    using inj m ne by (meson inj_onD)
  then show ?thesis
    unfolding rr by simp
qed

lemma solution_move_valid:
  assumes cs: "correct_solution p sol" and sh: "shape9 g" and rc: "row < 9" "col < 9"
    and part: "\<And>r c. r < 9 \<Longrightarrow> c < 9 \<Longrightarrow> g ! r ! c = Some 0 \<or> g ! r ! c = Some (sol ! r ! c)"
  shows "isValidMove g row col (sol ! row ! col) = Inr True"
proof -
  have nz: "sol ! row ! col \<noteq> 0"
    using correct_solutionD(2) [OF cs rc] .
  have cell: "g ! r ! c \<noteq> Some (sol ! row ! col)"
    if "r < 9" "c < 9" "sol ! r ! c \<noteq> sol ! row ! col" for r c
    using part [OF that(1,2)] that(3) nz by auto
  have rows: "\<forall>x<9. x \<noteq> col \<longrightarrow> g ! row ! x \<noteq> Some (sol ! row ! col)"
    using cell rc solution_row [OF cs rc] by blast
  have cols: "\<forall>x<9. x \<noteq> row \<longrightarrow> g ! x ! col \<noteq> Some (sol ! row ! col)"
    using cell rc solution_col [OF cs rc] by blast
  have box: "\<forall>i<3. \<forall>j<3.
      row - row mod 3 + i \<noteq> row \<or> col - col mod 3 + j \<noteq> col \<longrightarrow>
      g ! (row - row mod 3 + i) ! (col - col mod 3 + j) \<noteq> Some (sol ! row ! col)"
  proof (intro allI impI)
    fix i j :: nat
    assume ij: "i < 3" "j < 3"
      and ne: "row - row mod 3 + i \<noteq> row \<or> col - col mod 3 + j \<noteq> col"
    show "g ! (row - row mod 3 + i) ! (col - col mod 3 + j) \<noteq> Some (sol ! row ! col)"
      using cell [OF box_bound [OF rc(1) ij(1)] box_bound [OF rc(2) ij(2)]]
        solution_box [OF cs rc ij ne]
      by blast
  qed
  show ?thesis
    unfolding isValidMove_shape9 [OF sh rc] using rows cols box by simp
qed

lemma solution_click:
  assumes cs: "correct_solution p sol" and wf: "wf_board s" and rc: "r < 9" "c < 9"
    and ed: "initialGrid s ! r ! c = Some 0"
    and err: "\<forall>r'<9. \<forall>c'<9. errors s ! r' ! c' \<noteq> Some True"
    and part: "\<forall>r'<9. \<forall>c'<9. grid s ! r' ! c' = Some 0 \<or> grid s ! r' ! c' = Some (sol ! r' ! c')"
    and out: "out = handleCellClick False (handleNumberSelect s (sol ! r ! c)) r c"
  shows "wf_board (final_state out)"
    and "initialGrid (final_state out) = initialGrid s"
    and "\<forall>r'<9. \<forall>c'<9. errors (final_state out) ! r' ! c' \<noteq> Some True"
    and "\<forall>r'<9. \<forall>c'<9. grid (final_state out) ! r' ! c' =
           (if r' = r \<and> c' = c then Some (sol ! r ! c) else grid s ! r' ! c')"
    and "OnSolved \<in> set (emitted out) \<longleftrightarrow>
           (\<forall>r'<9. \<forall>c'<9. grid (final_state out) ! r' ! c' \<noteq> Some 0)"
proof -
  let ?d = "sol ! r ! c"
  let ?s1 = "handleNumberSelect s ?d"
  let ?G = "(grid ?s1)[r := (grid ?s1 ! r)[c := Some (selectedNumber ?s1)]]"
  let ?E = "(errors ?s1)[r := (errors ?s1 ! r)[c := Some (\<not> True)]]"
  from wf have sh: "shape9 (grid s)" "shape9 (initialGrid s)" "shape9 (errors s)"
    "shape9 (correctCells s)"
    by (simp_all add: wf_board_def)
  have s1: "grid ?s1 = grid s" "errors ?s1 = errors s" "correctCells ?s1 = correctCells s"
    "initialGrid ?s1 = initialGrid s" "selectedNumber ?s1 = ?d"
    by (simp_all add: handleNumberSelect_def)
  have wf1: "wf_board ?s1"
    using wf by (rule wf_board_select)
  have ed1: "initialGrid ?s1 ! r ! c = Some 0"
    using ed s1(4) by simp
  have shG: "shape9 ?G"
    unfolding s1 using sh(1) by (rule shape9_update)
  have G: "?G ! r' ! c' = (if r' = r \<and> c' = c then Some ?d else grid s ! r' ! c')"
    if "r' < 9" "c' < 9" for r' c'
    unfolding s1 using sh(1) rc that by (rule nth_update2)
  have partG: "?G ! r' ! c' = Some 0 \<or> ?G ! r' ! c' = Some (sol ! r' ! c')"
    if "r' < 9" "c' < 9" for r' c'
    using G [OF that] part that by auto
  have "isValidMove ?G r c ?d = Inr True"
    using cs shG rc partG by (rule solution_move_valid)
  then have valid: "isValidMove ?G r c (selectedNumber ?s1) = Inr True"
    by (simp only: s1(5))
  then have v: "True \<longleftrightarrow> selectedNumber ?s1 = 0 \<or>
      isValidMove ?G r c (selectedNumber ?s1) = Inr True"
    by simp
  have E: "?E ! r' ! c' \<noteq> Some True" if "r' < 9" "c' < 9" for r' c'
    unfolding s1 using err that sh(3) rc by (simp add: nth_update2)
  note click = handleCellClick_editable [OF wf1 rc ed1 refl refl v]
  have fs: "grid (final_state out) = ?G" "errors (final_state out) = ?E"
    "initialGrid (final_state out) = initialGrid s"
    "correctCells (final_state out) =
       (correctCells ?s1)[r := (correctCells ?s1 ! r)[c := Some True]]"
    unfolding out click by (simp_all add: s1)
  show "wf_board (final_state out)"
    unfolding wf_board_def fs using shG sh by (simp add: s1 shape9_update)
  show "initialGrid (final_state out) = initialGrid s"
    by (rule fs(3))
  show "\<forall>r'<9. \<forall>c'<9. errors (final_state out) ! r' ! c' \<noteq> Some True"
    unfolding fs(2) using E by blast
  show "\<forall>r'<9. \<forall>c'<9. grid (final_state out) ! r' ! c' =
           (if r' = r \<and> c' = c then Some (sol ! r ! c) else grid s ! r' ! c')"
    unfolding fs(1) using G by blast
  have "emitted out =
      [ToastSuccess (selectedNumber ?s1)] @
      (if (\<forall>r'<9. \<forall>c'<9. ?G ! r' ! c' \<noteq> Some 0) \<and> (\<forall>r'<9. \<forall>c'<9. ?E ! r' ! c' \<noteq> Some True)
       then [OnSolved] else [])"
    unfolding out click by simp
  then show "OnSolved \<in> set (emitted out) \<longleftrightarrow>
           (\<forall>r'<9. \<forall>c'<9. grid (final_state out) ! r' ! c' \<noteq> Some 0)"
    unfolding fs(1) using E by auto
qed

lemma fill_Cons:
  "fill sol ((r, c) # order) = Select (sol ! r ! c) # Click r c # fill sol order"
  by (simp add: fill_def)

lemma length_fill: "length (fill sol order) = 2 * length order"
  by (induction order) (auto simp: fill_def)

lemma fill_trace:
  assumes cs: "correct_solution p sol"
  shows "distinct order \<Longrightarrow>
    \<forall>(r, c) \<in> set order. r < 9 \<and> c < 9 \<and> initialGrid s ! r ! c = Some 0 \<Longrightarrow>
    wf_board s \<Longrightarrow>
    \<forall>r<9. \<forall>c<9. errors s ! r ! c \<noteq> Some True \<Longrightarrow>
    \<forall>r<9. \<forall>c<9. grid s ! r ! c =
       (if (r, c) \<in> set order then Some 0 else Some (sol ! r ! c)) \<Longrightarrow>
    map (\<lambda>sigs. OnSolved \<in> set sigs) (trace (False, s) (fill sol order)) =
      (if order = [] then [] else replicate (2 * length order - 1) False @ [True])"
proof (induction order arbitrary: s)
  case Nil
  show ?case by (simp add: fill_def)
next
  case (Cons rc rest)
  obtain r c where rc: "rc = (r, c)" by (cases rc)
  let ?out = "handleCellClick False (handleNumberSelect s (sol ! r ! c)) r c"
  from Cons.prems(1) have dist: "(r, c) \<notin> set rest" "distinct rest"
    by (simp_all add: rc)
  from Cons.prems(2) have b: "r < 9" "c < 9" and ed: "initialGrid s ! r ! c = Some 0"
    and rest: "\<forall>(r, c) \<in> set rest. r < 9 \<and> c < 9 \<and> initialGrid s ! r ! c = Some 0"
    by (simp_all add: rc)
  have part: "\<forall>r'<9. \<forall>c'<9.
      grid s ! r' ! c' = Some 0 \<or> grid s ! r' ! c' = Some (sol ! r' ! c')"
    using Cons.prems(5) by simp
  note click = solution_click [OF cs Cons.prems(3) b ed Cons.prems(4) part refl]
  have g': "\<forall>r'<9. \<forall>c'<9. grid (final_state ?out) ! r' ! c' =
      (if (r', c') \<in> set rest then Some 0 else Some (sol ! r' ! c'))"
    using click(4) Cons.prems(5) dist(1) by (auto simp: rc)
  have rest': "\<forall>(r', c') \<in> set rest.
      r' < 9 \<and> c' < 9 \<and> initialGrid (final_state ?out) ! r' ! c' = Some 0"
    using rest unfolding click(2) .
  note ih = Cons.IH [OF dist(2) rest' click(1) click(3) g']
  have nz: "\<And>r' c'. r' < 9 \<Longrightarrow> c' < 9 \<Longrightarrow> sol ! r' ! c' \<noteq> 0"
    using correct_solutionD(2) [OF cs] .
  have solved: "OnSolved \<in> set (emitted ?out) \<longleftrightarrow> rest = []"
  proof
    assume "OnSolved \<in> set (emitted ?out)"
    then have all: "\<forall>r'<9. \<forall>c'<9. grid (final_state ?out) ! r' ! c' \<noteq> Some 0"
      using click(5) by simp
    show "rest = []"
    proof (rule ccontr)
      assume "rest \<noteq> []"
      then obtain r' c' where m: "(r', c') \<in> set rest"
        by (cases rest) auto
      with rest have lt: "r' < 9" "c' < 9" by auto
      from g' lt m have "grid (final_state ?out) ! r' ! c' = Some 0" by simp
      moreover from all lt have "grid (final_state ?out) ! r' ! c' \<noteq> Some 0" by blast
      ultimately show False by blast
    qed
  next
    assume "rest = []"
    with g' nz have "\<forall>r'<9. \<forall>c'<9. grid (final_state ?out) ! r' ! c' \<noteq> Some 0"
      by simp
    then show "OnSolved \<in> set (emitted ?out)"
      using click(5) by simp
  qed
  have unfold: "map (\<lambda>sigs. OnSolved \<in> set sigs) (trace (False, s) (fill sol (rc # rest))) =
      False # (rest = []) #
      map (\<lambda>sigs. OnSolved \<in> set sigs) (trace (False, final_state ?out) (fill sol rest))"
    unfolding rc fill_Cons by (simp add: Let_def solved)
  show ?case
  proof (cases "rest = []")
    case True
    then show ?thesis
      unfolding unfold by (simp add: fill_def)
  next
    case False
    then obtain n where n: "2 * length rest = Suc n"
      by (cases rest) auto
    show ?thesis
      unfolding unfold ih using False by (simp add: n)
  qed
qed

lemma empty_cells_iff:
  "(r, c) \<in> set (empty_cells p) \<longleftrightarrow> r < 9 \<and> c < 9 \<and> p ! r ! c = 0"
  by (auto simp: empty_cells_def)

lemma empty_cells_nonempty: "empty_cells (sudokuPuzzles d) \<noteq> []"
proof -
  have "(0, 2) \<in> set (empty_cells (sudokuPuzzles d))"
    unfolding empty_cells_iff by (cases d) (simp_all add: easy_def medium_def hard_def)
  then show ?thesis by auto
qed

lemma distinct_empty_cells: "distinct (empty_cells p)"
  by (simp add: empty_cells_def distinct_product)

text \<open>
  C6: take any of the three puzzles, any completed grid that is a correct solution of
  it (each puzzle has one, lemma \<open>solution_correct\<close>) and the empty cells of the
  puzzle in any order. Picking the solution's digit and clicking the cell, cell after
  cell, calls \<open>onSolved\<close> at the last click and at no event before it.
\<close>

theorem solution_fill_solved_at_last:
  assumes "correct_solution (sudokuPuzzles d) sol"
    and "distinct order" "set order = set (empty_cells (sudokuPuzzles d))"
  shows "map (\<lambda>sigs. OnSolved \<in> set sigs) (trace (False, start d) (fill sol order)) =
           replicate (length (fill sol order) - 1) False @ [True]"
proof -
  have mem: "(r, c) \<in> set order \<longleftrightarrow> r < 9 \<and> c < 9 \<and> sudokuPuzzles d ! r ! c = 0" for r c
    unfolding assms(3) by (rule empty_cells_iff)
  have ed: "\<forall>(r, c) \<in> set order. r < 9 \<and> c < 9 \<and> initialGrid (start d) ! r ! c = Some 0"
    using mem by (auto simp: start_cells)
  have err: "\<forall>r<9. \<forall>c<9. errors (start d) ! r ! c \<noteq> Some True"
    by (simp add: start_cells)
  have g: "\<forall>r<9. \<forall>c<9. grid (start d) ! r ! c =
      (if (r, c) \<in> set order then Some 0 else Some (sol ! r ! c))"
    using mem correct_solutionD(3) [OF assms(1)] by (auto simp: start_cells)
  have ne: "order \<noteq> []"
    using assms(3) empty_cells_nonempty [of d] by auto
  show ?thesis
    using fill_trace [OF assms(1,2) ed wf_board_start err g] ne
    by (simp add: length_fill)
qed

theorem solution_fill_solved_at_last_witness:
  "correct_solution (sudokuPuzzles Easy) (solution Easy) \<and>
   distinct (rev (empty_cells (sudokuPuzzles Easy))) \<and>
   set (rev (empty_cells (sudokuPuzzles Easy))) = set (empty_cells (sudokuPuzzles Easy)) \<and>
   map (\<lambda>sigs. OnSolved \<in> set sigs)
     (trace (False, start Easy) (fill (solution Easy) (rev (empty_cells (sudokuPuzzles Easy))))) =
   replicate (length (fill (solution Easy) (rev (empty_cells (sudokuPuzzles Easy)))) - 1) False
     @ [True]"
proof -
  have a: "correct_solution (sudokuPuzzles Easy) (solution Easy)"
    by (rule solution_correct)
  have b: "distinct (rev (empty_cells (sudokuPuzzles Easy)))"
    using distinct_empty_cells by simp
  have c: "set (rev (empty_cells (sudokuPuzzles Easy))) = set (empty_cells (sudokuPuzzles Easy))"
    by simp
  show ?thesis
    using solution_fill_solved_at_last [OF a b c] a b c by blast
qed

end
